theory Spec2Isabelle
  imports Complex_Main "HOL-Library.Word" "HOL-Library.Log_Nat"
begin

unbundle bit_operations_syntax

section \<open>Values shared by the components\<close>

text \<open>
  Bytes of an \<open>ArrayBuffer\<close> or \<open>Uint8Array\<close> are 8-bit words, the elements of an
  \<open>Int16Array\<close> are 16-bit words read as two's complement. JavaScript numbers that
  stay finite are rationals: every double and every 32-bit float is one.
  \<^item> The gain factor is rounded as the code rounds it: the quotient
    \<open>sensitivity / 50\<close> is a double, and \<open>gainNode.gain.value\<close> holds a 32-bit float.
  \<^item> The samples of the decoder need no rounding: a quotient \<open>v / 32768\<close> of a
    16-bit \<open>v\<close> is a dyadic fraction that a 32-bit float holds as it is.
  \<^item> A level \<open>b / 255\<close> of the analyzer stands for the exact quotient; the double
    that the code computes is the nearest one, which keeps the order of the levels
    and their bounds 0 and 1.
\<close>

type_synonym byte = "8 word"
type_synonym int16 = "16 word"

text \<open>
  Rounding to a binary floating-point format with \<open>p\<close> significant bits, to the
  nearest value and to the even one of two nearest values: \<open>binary_exponent x\<close> is
  the \<open>e\<close> with \<open>2\<^sup>e \<le> x < 2\<^sup>e\<^sup>+\<^sup>1\<close> for a positive \<open>x\<close>, and the values of the
  format near \<open>x\<close> are the multiples of \<open>2\<^sup>e\<^sup>-\<^sup>p\<^sup>+\<^sup>1\<close>. A double has 53 significant
  bits, a 32-bit float 24. The range of the exponent is not bounded: the
  quotients that are rounded here, gain settings of a range input from 0 to 100
  divided by 50, are far from overflow and from the subnormal numbers.
\<close>

definition round_half_even :: "rat \<Rightarrow> int" where
  "round_half_even y =
     (let f = \<lfloor>y\<rfloor>; r = y - of_int f in
      if r < 1 / 2 then f else if 1 / 2 < r then f + 1 else if even f then f else f + 1)"

definition binary_exponent :: "rat \<Rightarrow> int" where
  "binary_exponent x =
     (if 1 \<le> x then bitlen \<lfloor>x\<rfloor> - 1
      else (let l = bitlen \<lfloor>1 / x\<rfloor> in if x * 2 ^ nat (l - 1) = 1 then 1 - l else - l))"

definition round_to_precision :: "nat \<Rightarrow> rat \<Rightarrow> rat" where
  "round_to_precision p x =
     (if x = 0 then 0
      else (let q = 2 powi (binary_exponent \<bar>x\<bar> - int p + 1)
            in sgn x * of_int (round_half_even (\<bar>x\<bar> / q)) * q))"

definition to_double :: "rat \<Rightarrow> rat" where
  "to_double x = round_to_precision 53 x"

definition to_float32 :: "rat \<Rightarrow> rat" where
  "to_float32 x = round_to_precision 24 x"

text \<open>The exceptions the modelled code paths can raise, by the name JavaScript gives them.\<close>

datatype js_error =
    RangeError
  | NotSupportedError
  | InvalidCharacterError
  | NotAllowedError
  | NotFoundError
  | InvalidStateError
  | Error string

section \<open>Playback decoder (\<open>decodeRawPCM\<close> in \<open>App.tsx\<close>)\<close>

text \<open>
  \<open>new Int16Array(data.buffer)\<close> views the whole buffer as 16-bit elements in the
  byte order of the platform, which is little-endian on every platform that runs
  the application: element \<open>k\<close> is made of bytes \<open>2k\<close> (low) and \<open>2k+1\<close> (high). The
  constructor throws a \<open>RangeError\<close> when the byte length of the buffer is not a
  multiple of the element size.
\<close>

definition int16_le :: "byte \<Rightarrow> byte \<Rightarrow> int16" where
  "int16_le lo hi = word_cat hi lo"

fun int16_elements :: "byte list \<Rightarrow> int16 list" where
  "int16_elements (lo # hi # rest) = int16_le lo hi # int16_elements rest"
| "int16_elements _ = []"

definition new_Int16Array :: "byte list \<Rightarrow> js_error + int16 list" where
  "new_Int16Array buffer =
     (if length buffer mod 2 \<noteq> 0 then Inl RangeError else Inr (int16_elements buffer))"

text \<open>
  \<open>ctx.createBuffer(numberOfChannels, length, sampleRate)\<close> gives a zero-filled
  buffer; it throws \<open>NotSupportedError\<close> when the channel count or the length is
  zero or a value is outside the range every implementation supports (up to 32
  channels, 8000 to 96000 Hz). Only channel 0 is ever read or written by the
  application, so the buffer records the channel count and the data of channel 0.
\<close>

record audio_buffer =
  numberOfChannels :: nat
  sampleRate :: nat
  channelData :: "rat list"

definition createBuffer :: "nat \<Rightarrow> nat \<Rightarrow> nat \<Rightarrow> js_error + audio_buffer" where
  "createBuffer nch len rate =
     (if nch = 0 \<or> 32 < nch \<or> len = 0 \<or> rate < 8000 \<or> 96000 < rate
      then Inl NotSupportedError
      else Inr \<lparr>numberOfChannels = nch, sampleRate = rate, channelData = replicate len 0\<rparr>)"

text \<open>
  The loop \<open>for (let i = 0; i < dataInt16.length; i++) channelData[i] = dataInt16[i] / 32768.0\<close>.
  A write past the end of a typed array is ignored, as \<open>list_update\<close> is.
\<close>

function decode_loop :: "int16 list \<Rightarrow> nat \<Rightarrow> rat list \<Rightarrow> rat list" where
  "decode_loop dataInt16 i channel =
     (if i < length dataInt16
      then decode_loop dataInt16 (Suc i) (channel[i := of_int (sint (dataInt16 ! i)) / 32768])
      else channel)"
  by pat_completeness auto
termination
  by (relation "measure (\<lambda>(dataInt16, i, channel). length dataInt16 - i)") auto

declare decode_loop.simps [simp del]

definition decodeRawPCM :: "byte list \<Rightarrow> js_error + audio_buffer" where
  "decodeRawPCM data =
     (case new_Int16Array data of
        Inl e \<Rightarrow> Inl e
      | Inr dataInt16 \<Rightarrow>
          (case createBuffer 1 (length dataInt16) 24000 of
             Inl e \<Rightarrow> Inl e
           | Inr buffer \<Rightarrow>
               Inr (buffer\<lparr>channelData := decode_loop dataInt16 0 (channelData buffer)\<rparr>)))"

text \<open>
  The reading of a pair of bytes that the specification gives: a 16-bit signed
  little-endian integer, written with plain arithmetic.
\<close>

definition s16le :: "byte \<Rightarrow> byte \<Rightarrow> int" where
  "s16le lo hi =
     (let u = uint lo + 256 * uint hi in if u < 32768 then u else u - 65536)"

section \<open>Synthesis service (\<open>GeminiService.speak\<close>, \<open>decodeBase64\<close>)\<close>

text \<open>
  \<open>atob\<close> is the platform's forgiving-base64 decoder: ASCII whitespace is removed,
  up to two trailing \<open>=\<close> are removed when the length is a multiple of four, a
  length that leaves remainder one or a character outside the base64 alphabet
  throws \<open>InvalidCharacterError\<close>, and the remaining characters are read six bits
  at a time. The result is a binary string: one code unit below 256 per byte.
  A character that is not Latin-1 is outside the alphabet as well, so 8-bit
  characters are enough for the input.
\<close>

definition ascii_whitespace :: "char \<Rightarrow> bool" where
  "ascii_whitespace c \<longleftrightarrow> of_char c \<in> {9, 10, 12, 13, 32 :: nat}"

definition base64_index :: "char \<Rightarrow> nat option" where
  "base64_index c =
     (let n = (of_char c :: nat) in
      if 65 \<le> n \<and> n \<le> 90 then Some (n - 65)
      else if 97 \<le> n \<and> n \<le> 122 then Some (n - 71)
      else if 48 \<le> n \<and> n \<le> 57 then Some (n + 4)
      else if n = 43 then Some 62
      else if n = 47 then Some 63
      else None)"

definition strip_padding :: "string \<Rightarrow> string" where
  "strip_padding s =
     (if length s mod 4 = 0 \<and> s \<noteq> [] \<and> last s = CHR ''=''
      then (let s' = butlast s in
            if s' \<noteq> [] \<and> last s' = CHR ''='' then butlast s' else s')
      else s)"

fun sextets_to_bytes :: "nat list \<Rightarrow> nat list" where
  "sextets_to_bytes (a # b # c # d # rest) =
     (let n = ((a * 64 + b) * 64 + c) * 64 + d
      in n div 65536 # (n div 256) mod 256 # n mod 256 # sextets_to_bytes rest)"
| "sextets_to_bytes [a, b, c] =
     (let n = ((a * 64 + b) * 64 + c) div 4 in [n div 256, n mod 256])"
| "sextets_to_bytes [a, b] = [(a * 64 + b) div 16]"
| "sextets_to_bytes _ = []"

definition atob :: "string \<Rightarrow> js_error + nat list" where
  "atob s =
     (let d = strip_padding (filter (\<lambda>c. \<not> ascii_whitespace c) s) in
      if length d mod 4 = 1 then Inl InvalidCharacterError
      else (case those (map base64_index d) of
              None \<Rightarrow> Inl InvalidCharacterError
            | Some sextets \<Rightarrow> Inr (sextets_to_bytes sextets)))"

text \<open>
  \<open>decodeBase64\<close>: the loop \<open>bytes[i] = binaryString.charCodeAt(i)\<close> over a fresh
  \<open>Uint8Array(len)\<close>; a store into a \<open>Uint8Array\<close> keeps the value modulo 256.
\<close>

function charCode_loop :: "nat list \<Rightarrow> nat \<Rightarrow> byte list \<Rightarrow> byte list" where
  "charCode_loop binaryString i bytes =
     (if i < length binaryString
      then charCode_loop binaryString (Suc i) (bytes[i := of_nat (binaryString ! i)])
      else bytes)"
  by pat_completeness auto
termination
  by (relation "measure (\<lambda>(binaryString, i, bytes). length binaryString - i)") auto

declare charCode_loop.simps [simp del]

definition decodeBase64 :: "string \<Rightarrow> js_error + byte list" where
  "decodeBase64 base64 =
     (case atob base64 of
        Inl e \<Rightarrow> Inl e
      | Inr binaryString \<Rightarrow>
          Inr (charCode_loop binaryString 0 (replicate (length binaryString) 0)))"

text \<open>
  The part of the service's response that \<open>speak\<close> reads. Every level is optional
  in the client library's types, and the code reads it with optional chaining:
  \<open>response.candidates?.[0]?.content?.parts?.[0]?.inlineData?.data\<close>.
\<close>

record inline_blob =
  data :: "string option"
  mimeType :: "string option"

record part =
  inlineData :: "inline_blob option"

record content =
  parts :: "part list option"

record candidate =
  content :: "content option"

record response =
  candidates :: "candidate list option"

definition first :: "'a list \<Rightarrow> 'a option" where
  "first xs = (case xs of [] \<Rightarrow> None | x # _ \<Rightarrow> Some x)"

definition inline_audio :: "response \<Rightarrow> string option" where
  "inline_audio r =
     Option.bind (candidates r) (\<lambda>cs.
     Option.bind (first cs) (\<lambda>c.
     Option.bind (content c) (\<lambda>ct.
     Option.bind (parts ct) (\<lambda>ps.
     Option.bind (first ps) (\<lambda>p.
     Option.bind (inlineData p) data)))))"

text \<open>A response whose first candidate carries one inline audio part.\<close>

definition audio_response :: "string \<Rightarrow> response" where
  "audio_response base64 =
     \<lparr>candidates = Some [\<lparr>content = Some \<lparr>parts = Some [\<lparr>inlineData =
        Some \<lparr>data = Some base64, mimeType = Some ''audio/pcm''\<rparr>\<rparr>]\<rparr>\<rparr>]\<rparr>"

text \<open>
  \<open>speak\<close>, from the point where \<open>generateContent\<close> has settled: with a rejection,
  which the \<open>await\<close> rethrows, or with a response. \<open>!base64Audio\<close> holds for
  \<open>undefined\<close> and for the empty string.
\<close>

definition speak :: "js_error + response \<Rightarrow> js_error + byte list" where
  "speak generated =
     (case generated of
        Inl e \<Rightarrow> Inl e
      | Inr r \<Rightarrow>
          (case inline_audio r of
             None \<Rightarrow> Inl (Error ''No audio returned'')
           | Some base64Audio \<Rightarrow>
               if base64Audio = [] then Inl (Error ''No audio returned'')
               else decodeBase64 base64Audio))"

section \<open>Playback call site (\<open>handleSpeak\<close> in \<open>App.tsx\<close>)\<close>

text \<open>
  The application state: the React state and refs of \<open>App\<close>, and beside them the
  platform objects the handlers create and act on. A stream, an audio graph
  (the \<open>AudioContext\<close> built by \<open>startRecording\<close> with its source, gain and
  destination nodes) and a \<open>MediaRecorder\<close> are entries of a list, and a ref
  holds the index of its object.
  \<^item> \<open>track_stops\<close> counts the calls of \<open>stop()\<close> on the tracks of a stream: the
    tracks are live while it is 0.
  \<^item> \<open>gain_value\<close> is \<open>gainNode.gain.value\<close>, a 32-bit float, \<open>None\<close> before the gain
    node exists;
    \<open>close_calls\<close> counts the calls of \<open>close()\<close> on the context.
  \<^item> \<open>graph\<close> is the \<open>audioContext\<close> that the \<open>onstop\<close> closure of a recorder captured.
  \<^item> \<open>readers\<close> holds the blobs handed to \<open>handleAudioProcess\<close>, which passes them
    on to the analysis service; \<open>started\<close> holds the buffers of the playback
    sources that were started; \<open>console\<close> is what \<open>console.error\<close> received.
\<close>

record blob =
  blob_bytes :: "byte list"
  blob_type :: string

definition blob_size :: "blob \<Rightarrow> nat" where
  "blob_size b = length (blob_bytes b)"

definition new_Blob :: "blob list \<Rightarrow> string \<Rightarrow> blob" where
  "new_Blob blobParts ty = \<lparr>blob_bytes = concat (map blob_bytes blobParts), blob_type = ty\<rparr>"

datatype recording_state = Inactive | Recording | Paused

record media_stream =
  track_stops :: nat

record audio_graph =
  gain_value :: "rat option"
  close_calls :: nat

record media_recorder =
  state :: recording_state
  graph :: nat

record app =
  isRecording :: bool
  isProcessing :: bool
  error :: "string option"
  selectedDeviceId :: string
  sensitivity :: int
  mediaRecorderRef :: "nat option"
  audioChunksRef :: "blob list"
  streamRef :: "nat option"
  audioContextRef :: "nat option"
  streams :: "media_stream list"
  contexts :: "audio_graph list"
  recorders :: "media_recorder list"
  readers :: "blob list"
  started :: "audio_buffer list"
  console :: "(string \<times> js_error) list"

text \<open>The state of \<open>App\<close> when it is mounted: the initial values of its hooks.\<close>

definition initial_app :: app where
  "initial_app =
     \<lparr>isRecording = False, isProcessing = False, error = None, selectedDeviceId = [],
      sensitivity = 50, mediaRecorderRef = None, audioChunksRef = [], streamRef = None,
      audioContextRef = None, streams = [], contexts = [], recorders = [], readers = [],
      started = [], console = []\<rparr>"

text \<open>
  \<open>handleSpeak\<close>. Its whole body is inside \<open>try\<close>, and the \<open>catch\<close> only logs, so the
  function has no exceptional outcome: the result is always a state. The playback
  context is created once, at 24000 Hz, and kept in \<open>audioContextRef\<close>; the value
  of the ref is modelled by that sample rate, and creating the context is taken
  to succeed. The argument is the outcome of the service's \<open>generateContent\<close>
  call that \<open>gemini.speak\<close> awaits.
\<close>

definition catch_speak :: "js_error \<Rightarrow> app \<Rightarrow> app" where
  "catch_speak e st = st\<lparr>console := console st @ [(''Speech playback error:'', e)]\<rparr>"

definition handleSpeak :: "js_error + response \<Rightarrow> app \<Rightarrow> app" where
  "handleSpeak generated st =
     (let st1 = (if audioContextRef st = None then st\<lparr>audioContextRef := Some 24000\<rparr> else st) in
      case speak generated of
        Inl e \<Rightarrow> catch_speak e st1
      | Inr audioBufferData \<Rightarrow>
          (case decodeRawPCM audioBufferData of
             Inl e \<Rightarrow> catch_speak e st1
           | Inr buffer \<Rightarrow> st1\<lparr>started := started st1 @ [buffer]\<rparr>))"

section \<open>Recorder and gain stage (\<open>startRecording\<close>, \<open>stopRecording\<close> in \<open>App.tsx\<close>)\<close>

text \<open>
  What the platform does during one call of \<open>startRecording\<close>: whether
  \<open>getUserMedia\<close> rejects for the given constraints, and whether one of the calls
  that build the graph and the recorder throws. The \<open>await\<close> on \<open>getUserMedia\<close> is
  taken to settle before the next event is handled.
\<close>

datatype audio_constraint = AnyAudio | ExactDevice string

datatype setup_step = NewAudioContext | CreateMediaStreamSource | NewMediaRecorder | RecorderStart

record environment =
  getUserMedia :: "audio_constraint \<Rightarrow> js_error option"
  throws_at :: "setup_step \<Rightarrow> js_error option"

definition constraints_of :: "app \<Rightarrow> audio_constraint" where
  "constraints_of st =
     (if selectedDeviceId st \<noteq> [] then ExactDevice (selectedDeviceId st) else AnyAudio)"

definition catch_recording :: "js_error \<Rightarrow> app \<Rightarrow> app" where
  "catch_recording e st =
     st\<lparr>console := console st @ [(''Recording error:'', e)],
        error := Some ''Failed to access microphone. Please check permissions.''\<rparr>"

text \<open>
  The steps of the \<open>try\<close> block after the stream has arrived, in the order of the
  source; each one that can throw is followed by the \<open>catch\<close>. The assignment
  \<open>gainNode.gain.value = (sensitivity / 50)\<close> divides two doubles and stores the
  quotient in a 32-bit float.
\<close>

definition start_recorder :: "environment \<Rightarrow> nat \<Rightarrow> app \<Rightarrow> app" where
  "start_recorder env audioContext st =
     (case throws_at env NewMediaRecorder of
        Some e \<Rightarrow> catch_recording e st
      | None \<Rightarrow>
          (let recorder = length (recorders st);
               st1 = st\<lparr>recorders := recorders st @ [\<lparr>state = Inactive, graph = audioContext\<rparr>],
                        mediaRecorderRef := Some recorder\<rparr>
           in case throws_at env RecorderStart of
                Some e \<Rightarrow> catch_recording e st1
              | None \<Rightarrow>
                  st1\<lparr>recorders := (recorders st1)[recorder := \<lparr>state = Recording, graph = audioContext\<rparr>],
                      isRecording := True\<rparr>))"

definition build_graph :: "environment \<Rightarrow> int \<Rightarrow> app \<Rightarrow> app" where
  "build_graph env sens st =
     (case throws_at env NewAudioContext of
        Some e \<Rightarrow> catch_recording e st
      | None \<Rightarrow>
          (let audioContext = length (contexts st);
               st1 = st\<lparr>contexts := contexts st @ [\<lparr>gain_value = None, close_calls = 0\<rparr>]\<rparr>
           in case throws_at env CreateMediaStreamSource of
                Some e \<Rightarrow> catch_recording e st1
              | None \<Rightarrow>
                  start_recorder env audioContext
                    (st1\<lparr>contexts := (contexts st1)[audioContext :=
                           \<lparr>gain_value = Some (to_float32 (to_double (of_int sens / 50))),
                            close_calls = 0\<rparr>]\<rparr>)))"

definition startRecording :: "environment \<Rightarrow> app \<Rightarrow> app" where
  "startRecording env st =
     (let st1 = st\<lparr>error := None, audioChunksRef := []\<rparr> in
      case getUserMedia env (constraints_of st) of
        Some e \<Rightarrow> catch_recording e st1
      | None \<Rightarrow>
          (let stream = length (streams st1)
           in build_graph env (sensitivity st)
                (st1\<lparr>streams := streams st1 @ [\<lparr>track_stops = 0\<rparr>], streamRef := Some stream\<rparr>)))"

text \<open>
  \<open>stopRecording\<close>. \<open>recorder.stop()\<close> makes the recorder inactive; the platform then
  delivers the data gathered so far (\<open>ondataavailable\<close>) and the stop event
  (\<open>onstop\<close>). A ref always holds an object that exists; the bound checks keep the
  model total.
\<close>

definition stop_tracks :: "nat \<Rightarrow> app \<Rightarrow> app" where
  "stop_tracks s st =
     (if s < length (streams st)
      then st\<lparr>streams := (streams st)[s := \<lparr>track_stops = Suc (track_stops (streams st ! s))\<rparr>]\<rparr>
      else st)"

definition stopRecording :: "app \<Rightarrow> app" where
  "stopRecording st =
     (let st1 = (case mediaRecorderRef st of
                   None \<Rightarrow> st
                 | Some r \<Rightarrow>
                     if r < length (recorders st) \<and> state (recorders st ! r) = Recording
                     then st\<lparr>recorders := (recorders st)[r := (recorders st ! r)\<lparr>state := Inactive\<rparr>]\<rparr>
                     else st);
          st2 = (case streamRef st1 of None \<Rightarrow> st1 | Some s \<Rightarrow> stop_tracks s st1)
      in st2\<lparr>isRecording := False\<rparr>)"

text \<open>The handlers installed on the recorder, and \<open>handleAudioProcess\<close> up to the handoff.\<close>

definition ondataavailable :: "blob \<Rightarrow> app \<Rightarrow> app" where
  "ondataavailable e_data st =
     (if blob_size e_data > 0 then st\<lparr>audioChunksRef := audioChunksRef st @ [e_data]\<rparr> else st)"

definition handleAudioProcess :: "blob \<Rightarrow> app \<Rightarrow> app" where
  "handleAudioProcess b st = st\<lparr>isProcessing := True, error := None, readers := readers st @ [b]\<rparr>"

definition close_context :: "nat \<Rightarrow> app \<Rightarrow> app" where
  "close_context c st =
     (if c < length (contexts st)
      then st\<lparr>contexts := (contexts st)[c := (contexts st ! c)\<lparr>close_calls := Suc (close_calls (contexts st ! c))\<rparr>]\<rparr>
      else st)"

definition onstop :: "nat \<Rightarrow> app \<Rightarrow> app" where
  "onstop recorder st =
     (if recorder < length (recorders st)
      then (let audioBlob = new_Blob (audioChunksRef st) ''audio/webm''
            in close_context (graph (recorders st ! recorder)) (handleAudioProcess audioBlob st))
      else st)"

text \<open>\<open>onSensitivityChange\<close> is \<open>setSensitivity\<close>: the range input of the settings panel.\<close>

definition onSensitivityChange :: "int \<Rightarrow> app \<Rightarrow> app" where
  "onSensitivityChange val st = st\<lparr>sensitivity := val\<rparr>"

text \<open>
  The events the application handles. The record button is disabled while
  \<open>isProcessing\<close>; it starts a recording on every mouse-down and touch-start and
  stops on mouse-up and touch-end, and on mouse-leave when \<open>isRecording\<close>.
  \<open>DataAvailable r b\<close> and \<open>Stopped r\<close> are the events of recorder \<open>r\<close>. Every recorder
  has the same \<open>ondataavailable\<close> handler, which reads \<open>audioChunksRef.current\<close>
  when it runs: all recorders push into the one array the ref holds at that time.
  \<open>Speak\<close> is the replay button. \<open>Analysed\<close> is the end of the round trip that
  \<open>handleAudioProcess\<close> began: the \<open>onloadend\<close> callback of the reader has the
  result of the analysis, speaks it with \<open>handleSpeak\<close> and resets \<open>isProcessing\<close>.
  An analysis that fails rejects inside that callback and changes no state.
\<close>

datatype event =
    Press environment
  | Release
  | Leave
  | SensitivityChange int
  | DataAvailable nat blob
  | Stopped nat
  | Speak "js_error + response"
  | Analysed "js_error + response"

fun step :: "event \<Rightarrow> app \<Rightarrow> app" where
  "step (Press env) st = (if isProcessing st then st else startRecording env st)"
| "step Release st = (if isProcessing st then st else stopRecording st)"
| "step Leave st = (if isProcessing st then st else if isRecording st then stopRecording st else st)"
| "step (SensitivityChange val) st = onSensitivityChange val st"
| "step (DataAvailable r b) st = (if r < length (recorders st) then ondataavailable b st else st)"
| "step (Stopped r) st = onstop r st"
| "step (Speak generated) st = handleSpeak generated st"
| "step (Analysed generated) st = (handleSpeak generated st)\<lparr>isProcessing := False\<rparr>"

definition run :: "event list \<Rightarrow> app \<Rightarrow> app" where
  "run events st = fold step events st"

text \<open>
  A platform that grants the microphone and builds every object, and the
  condition that a platform does so for the call made in a given state.
\<close>

definition granted :: environment where
  "granted = \<lparr>getUserMedia = (\<lambda>c. None), throws_at = (\<lambda>s. None)\<rparr>"

text \<open>
  A platform that grants the microphone and builds the graph, but whose
  \<open>MediaRecorder\<close> constructor throws \<open>NotSupportedError\<close>.
\<close>

definition recorder_unsupported :: environment where
  "recorder_unsupported =
     granted\<lparr>throws_at := (\<lambda>s. if s = NewMediaRecorder then Some NotSupportedError else None)\<rparr>"

definition grants :: "environment \<Rightarrow> app \<Rightarrow> bool" where
  "grants env st \<longleftrightarrow>
     getUserMedia env (constraints_of st) = None \<and>
     list_all (\<lambda>s. throws_at env s = None)
       [NewAudioContext, CreateMediaStreamSource, NewMediaRecorder, RecorderStart]"

text \<open>The recorders that are recording, and so deliver chunks to \<open>ondataavailable\<close>.\<close>

definition active_recorders :: "app \<Rightarrow> nat list" where
  "active_recorders st = filter (\<lambda>r. state (recorders st ! r) = Recording) [0..<length (recorders st)]"

section \<open>Level analyzer (\<open>LiveMicIndicator.tsx\<close>, \<open>MiniWaveform.tsx\<close>)\<close>

text \<open>
  The numbers of the analyzer can leave the rationals: \<open>0 / 0\<close> is \<open>NaN\<close>, a read
  past the end of a typed array is \<open>undefined\<close>, which arithmetic turns into
  \<open>NaN\<close>. The operations below are those of JavaScript on the values that can
  occur (the sign of zero is not tracked).
\<close>

datatype jsnum = Num rat | NaN | PosInfinity | NegInfinity

fun js_add :: "jsnum \<Rightarrow> jsnum \<Rightarrow> jsnum" where
  "js_add (Num a) (Num b) = Num (a + b)"
| "js_add NaN _ = NaN"
| "js_add _ NaN = NaN"
| "js_add PosInfinity NegInfinity = NaN"
| "js_add NegInfinity PosInfinity = NaN"
| "js_add PosInfinity _ = PosInfinity"
| "js_add _ PosInfinity = PosInfinity"
| "js_add NegInfinity _ = NegInfinity"
| "js_add _ NegInfinity = NegInfinity"

fun js_div :: "jsnum \<Rightarrow> jsnum \<Rightarrow> jsnum" where
  "js_div (Num a) (Num b) =
     (if b \<noteq> 0 then Num (a / b)
      else if a = 0 then NaN else if 0 < a then PosInfinity else NegInfinity)"
| "js_div NaN _ = NaN"
| "js_div _ NaN = NaN"
| "js_div (Num a) _ = Num 0"
| "js_div PosInfinity (Num b) = (if 0 \<le> b then PosInfinity else NegInfinity)"
| "js_div NegInfinity (Num b) = (if 0 \<le> b then NegInfinity else PosInfinity)"
| "js_div _ _ = NaN"

fun Math_min :: "jsnum \<Rightarrow> jsnum \<Rightarrow> jsnum" where
  "Math_min (Num a) (Num b) = Num (min a b)"
| "Math_min NaN _ = NaN"
| "Math_min _ NaN = NaN"
| "Math_min NegInfinity _ = NegInfinity"
| "Math_min _ NegInfinity = NegInfinity"
| "Math_min PosInfinity b = b"
| "Math_min a PosInfinity = a"

definition typed_get :: "byte list \<Rightarrow> nat \<Rightarrow> byte option" where
  "typed_get xs i = (if i < length xs then Some (xs ! i) else None)"

definition magnitude :: "byte \<Rightarrow> rat" where
  "magnitude b = of_nat (unat b)"

definition to_number :: "byte option \<Rightarrow> jsnum" where
  "to_number v = (case v of None \<Rightarrow> NaN | Some b \<Rightarrow> Num (magnitude b))"

text \<open>
  An \<open>AnalyserNode\<close> has \<open>fftSize / 2\<close> bins. \<open>getByteFrequencyData(array)\<close> copies the
  magnitudes of the current frame, one byte per bin, into the array: bins beyond
  the array are dropped, elements beyond the bins are left as they are.
\<close>

record analyser =
  fftSize :: nat

definition frequencyBinCount :: "analyser \<Rightarrow> nat" where
  "frequencyBinCount a = fftSize a div 2"

definition getByteFrequencyData :: "byte list \<Rightarrow> byte list \<Rightarrow> byte list" where
  "getByteFrequencyData frame array = take (length array) frame @ drop (length frame) array"

text \<open>
  \<open>updateVolume\<close> of \<open>LiveMicIndicator\<close>: the value it passes to \<open>setVolume\<close>, or
  \<open>None\<close> when it returns early because \<open>analyzerRef.current\<close> is null.
\<close>

function sum_loop :: "byte list \<Rightarrow> nat \<Rightarrow> nat \<Rightarrow> jsnum \<Rightarrow> jsnum" where
  "sum_loop dataArray bufferLength i acc =
     (if i < bufferLength
      then sum_loop dataArray bufferLength (Suc i) (js_add acc (to_number (typed_get dataArray i)))
      else acc)"
  by pat_completeness auto
termination
  by (relation "measure (\<lambda>(dataArray, bufferLength, i, acc). bufferLength - i)") auto

declare sum_loop.simps [simp del]

definition updateVolume :: "analyser option \<Rightarrow> nat \<Rightarrow> byte list \<Rightarrow> byte list \<Rightarrow> jsnum option" where
  "updateVolume analyzerRef bufferLength array frame =
     (case analyzerRef of
        None \<Rightarrow> None
      | Some analyzer \<Rightarrow>
          (let dataArray = getByteFrequencyData frame array;
               acc = sum_loop dataArray bufferLength 0 (Num 0);
               average = js_div acc (Num (of_nat bufferLength));
               normalizedVolume = Math_min (Num 1) (js_div average (Num 128))
           in Some normalizedVolume))"

text \<open>The effect of \<open>LiveMicIndicator\<close> for an active stream: \<open>fftSize = 64\<close>.\<close>

definition LiveMicIndicator :: "byte list \<Rightarrow> jsnum option" where
  "LiveMicIndicator frame =
     (let analyzer = \<lparr>fftSize = 64\<rparr>;
          bufferLength = frequencyBinCount analyzer;
          dataArray = replicate bufferLength 0
      in updateVolume (Some analyzer) bufferLength dataArray frame)"

text \<open>
  \<open>update\<close> of \<open>MiniWaveform\<close>: the three levels it passes to \<open>setLevels\<close>, and the
  effect of the component for an active stream: \<open>fftSize = 32\<close>.
\<close>

definition update :: "analyser option \<Rightarrow> byte list \<Rightarrow> byte list \<Rightarrow> jsnum list option" where
  "update analyzerRef array frame =
     (case analyzerRef of
        None \<Rightarrow> None
      | Some analyzer \<Rightarrow>
          (let dataArray = getByteFrequencyData frame array;
               b1 = js_div (to_number (typed_get dataArray 1)) (Num 255);
               b2 = js_div (to_number (typed_get dataArray 4)) (Num 255);
               b3 = js_div (to_number (typed_get dataArray 8)) (Num 255)
           in Some [b1, b2, b3]))"

definition MiniWaveform :: "byte list \<Rightarrow> jsnum list option" where
  "MiniWaveform frame =
     (let analyzer = \<lparr>fftSize = 32\<rparr>;
          dataArray = replicate (frequencyBinCount analyzer) 0
      in update (Some analyzer) dataArray frame)"

text \<open>A level is in range when it is a number between 0 and 1.\<close>

fun in_unit_range :: "jsnum \<Rightarrow> bool" where
  "in_unit_range (Num v) = (0 \<le> v \<and> v \<le> 1)"
| "in_unit_range _ = False"

section \<open>Facts about the decoder\<close>

lemma byte_bound: "uint (b :: byte) < 256" "0 \<le> uint b"
  using uint_bounded [of b] by simp_all

lemma uint_int16_le: "uint (int16_le lo hi) = 256 * uint hi + uint lo"
proof -
  have "uint (int16_le lo hi) = concat_bit 8 (uint lo) (uint hi) mod 2 ^ 16"
    unfolding int16_le_def word_cat_eq' uint_word_of_int by simp
  also have "concat_bit 8 (uint lo) (uint hi) = uint lo mod 256 + 256 * uint hi"
    by (simp add: concat_bit_eq take_bit_eq_mod push_bit_eq_mult)
  also have "\<dots> = 256 * uint hi + uint lo"
    using byte_bound [of lo] by simp
  also have "\<dots> mod 2 ^ 16 = 256 * uint hi + uint lo"
    using byte_bound [of lo] byte_bound [of hi] by simp
  finally show ?thesis .
qed

lemma sint_int16: "sint (w :: int16) = (if uint w < 32768 then uint w else uint w - 65536)"
proof -
  have b: "uint w < 65536" "0 \<le> uint w"
    using uint_bounded [of w] by simp_all
  have "sint w = signed_take_bit 15 (uint w)"
    by (simp add: sint_uint)
  also have "\<dots> = (uint w + 32768) mod 65536 - 32768"
    by (simp add: signed_take_bit_eq_take_bit_shift take_bit_eq_mod)
  finally have s: "sint w = (uint w + 32768) mod 65536 - 32768" .
  show ?thesis
  proof (cases "uint w < 32768")
    case True
    with b have "(uint w + 32768) mod 65536 = uint w + 32768"
      by simp
    with s True show ?thesis by simp
  next
    case False
    with b have "(uint w + 32768) mod 65536 = uint w + 32768 - 65536"
      by (simp add: mod_pos_geq)
    with s False show ?thesis by simp
  qed
qed

lemma sint_int16_le: "sint (int16_le lo hi) = s16le lo hi"
  by (simp add: sint_int16 uint_int16_le s16le_def Let_def add.commute)

lemma length_int16_elements: "length (int16_elements bs) = length bs div 2"
  by (induction bs rule: int16_elements.induct) simp_all

lemma nth_int16_elements:
  "k < length bs div 2 \<Longrightarrow> int16_elements bs ! k = int16_le (bs ! (2 * k)) (bs ! (2 * k + 1))"
proof (induction bs arbitrary: k rule: int16_elements.induct)
  case (1 lo hi rest)
  then show ?case by (cases k) simp_all
qed simp_all

lemma decode_loop_closed:
  "length channel = length d \<Longrightarrow>
   decode_loop d i channel = take i channel @ map (\<lambda>v. of_int (sint v) / 32768) (drop i d)"
proof (induction d i channel rule: decode_loop.induct)
  case (1 d i channel)
  show ?case
  proof (cases "i < length d")
    case True
    let ?c = "channel[i := of_int (sint (d ! i)) / 32768]"
    have "decode_loop d i channel = decode_loop d (Suc i) ?c"
      using True by (simp add: decode_loop.simps [of d i])
    also have "\<dots> = take (Suc i) ?c @ map (\<lambda>v. of_int (sint v) / 32768) (drop (Suc i) d)"
      using "1.IH" [OF True] "1.prems" by simp
    also have "take (Suc i) ?c = take i channel @ [of_int (sint (d ! i)) / 32768]"
      using True "1.prems" by (simp add: take_Suc_conv_app_nth)
    finally show ?thesis
      using True by (simp add: Cons_nth_drop_Suc [symmetric])
  next
    case False
    with "1.prems" show ?thesis
      by (simp add: decode_loop.simps [of d i])
  qed
qed

lemma decode_loop_map:
  "decode_loop d 0 (replicate (length d) 0) = map (\<lambda>v. of_int (sint v) / 32768) d"
  by (simp add: decode_loop_closed)

lemma decodeRawPCM_odd: "odd (length buf) \<Longrightarrow> decodeRawPCM buf = Inl RangeError"
  by (simp add: decodeRawPCM_def new_Int16Array_def odd_iff_mod_2_eq_one)

lemma decodeRawPCM_empty: "decodeRawPCM [] = Inl NotSupportedError"
  by (simp add: decodeRawPCM_def new_Int16Array_def createBuffer_def)

lemma decodeRawPCM_even:
  assumes "even (length buf)" and "buf \<noteq> []"
  shows "decodeRawPCM buf =
           Inr \<lparr>numberOfChannels = 1, sampleRate = 24000,
                channelData = map (\<lambda>v. of_int (sint v) / 32768) (int16_elements buf)\<rparr>"
proof -
  from assms have "2 \<le> length buf"
    by (cases buf) (auto simp: Suc_le_eq)
  then have "length buf div 2 \<noteq> 0"
    by simp
  with assms(1) show ?thesis
    by (simp add: decodeRawPCM_def new_Int16Array_def createBuffer_def
        length_int16_elements decode_loop_map [of "int16_elements buf", unfolded length_int16_elements]
        even_iff_mod_2_eq_zero)
qed

lemma signed_int16_le: "(signed (int16_le lo hi) :: rat) = of_int (s16le lo hi)"
proof -
  have "(signed (int16_le lo hi) :: rat) = of_int (sint (int16_le lo hi))"
    by (rule of_int_sint [symmetric])
  then show ?thesis
    by (simp only: sint_int16_le)
qed

section \<open>Playback decoder: the numeric mapping\<close>

text \<open>
  Claim C3. For every byte buffer of even length, \<open>decodeRawPCM\<close> reads bytes
  \<open>2k\<close> and \<open>2k+1\<close> as one 16-bit signed little-endian sample \<open>v\<close> and stores
  \<open>v / 32768\<close> as sample \<open>k\<close> of a buffer with one channel at 24000 Hz; the bytes
  \<open>00 80 00 00\<close> decode to the samples \<open>-1, 0\<close>. (The only even length without a
  buffer is 0, which has no sample to decode: \<open>createBuffer\<close> refuses a length of
  zero.)
\<close>

theorem decode_samples:
  "(even (length buf) \<longrightarrow>
      decodeRawPCM buf =
        (if buf = [] then Inl NotSupportedError
         else Inr \<lparr>numberOfChannels = 1, sampleRate = 24000,
                   channelData = map (\<lambda>k. of_int (s16le (buf ! (2 * k)) (buf ! (2 * k + 1))) / 32768)
                                     [0..<length buf div 2]\<rparr>))
   \<and> decodeRawPCM [0x00, 0x80, 0x00, 0x00] =
        Inr \<lparr>numberOfChannels = 1, sampleRate = 24000, channelData = [-1, 0]\<rparr>"
proof (intro conjI impI)
  assume ev: "even (length buf)"
  have m: "map (\<lambda>v. of_int (sint v) / (32768::rat)) (int16_elements buf) =
        map (\<lambda>k. of_int (s16le (buf ! (2 * k)) (buf ! (2 * k + 1))) / 32768) [0..<length buf div 2]"
    by (rule nth_equalityI) (simp_all add: length_int16_elements nth_int16_elements signed_int16_le)
  show "decodeRawPCM buf =
        (if buf = [] then Inl NotSupportedError
         else Inr \<lparr>numberOfChannels = 1, sampleRate = 24000,
                   channelData = map (\<lambda>k. of_int (s16le (buf ! (2 * k)) (buf ! (2 * k + 1))) / 32768)
                                     [0..<length buf div 2]\<rparr>)"
  proof (cases "buf = []")
    case True
    then show ?thesis by (simp add: decodeRawPCM_empty)
  next
    case False
    show ?thesis
      unfolding decodeRawPCM_even [OF ev False] m using False by simp
  qed
next
  have "decodeRawPCM [0x00, 0x80, 0x00, 0x00] =
     Inr \<lparr>numberOfChannels = 1, sampleRate = 24000,
          channelData = map (\<lambda>v. of_int (sint v) / 32768) (int16_elements [0x00, 0x80, 0x00, 0x00])\<rparr>"
    by (rule decodeRawPCM_even) simp_all
  then show "decodeRawPCM [0x00, 0x80, 0x00, 0x00] =
        Inr \<lparr>numberOfChannels = 1, sampleRate = 24000, channelData = [-1, 0]\<rparr>"
    by (simp add: signed_int16_le s16le_def)
qed

theorem decode_samples_witness:
  "even (length [0xFF, 0x7F, 0x01, 0x00, 0xFF, 0xFF :: byte]) \<and>
   decodeRawPCM [0xFF, 0x7F, 0x01, 0x00, 0xFF, 0xFF] =
     Inr \<lparr>numberOfChannels = 1, sampleRate = 24000,
          channelData = [32767 / 32768, 1 / 32768, - 1 / 32768]\<rparr>"
  using decode_samples [of "[0xFF, 0x7F, 0x01, 0x00, 0xFF, 0xFF]"]
  by (simp add: s16le_def upt_rec)


section \<open>Base64 decoding and the synthesis response\<close>

lemma charCode_loop_closed:
  "length bytes = length s \<Longrightarrow>
   charCode_loop s i bytes = take i bytes @ map of_nat (drop i s)"
proof (induction s i bytes rule: charCode_loop.induct)
  case (1 s i bytes)
  show ?case
  proof (cases "i < length s")
    case True
    let ?b = "bytes[i := of_nat (s ! i)]"
    have "charCode_loop s i bytes = charCode_loop s (Suc i) ?b"
      using True by (simp add: charCode_loop.simps [of s i])
    also have "\<dots> = take (Suc i) ?b @ map of_nat (drop (Suc i) s)"
      using "1.IH" [OF True] "1.prems" by simp
    also have "take (Suc i) ?b = take i bytes @ [of_nat (s ! i)]"
      using True "1.prems" by (simp add: take_Suc_conv_app_nth)
    finally show ?thesis
      using True by (simp add: Cons_nth_drop_Suc [symmetric])
  next
    case False
    with "1.prems" show ?thesis
      by (simp add: charCode_loop.simps [of s i])
  qed
qed

lemma decodeBase64_eq:
  "decodeBase64 b = (case atob b of Inl e \<Rightarrow> Inl e | Inr s \<Rightarrow> Inr (map of_nat s))"
  by (simp add: decodeBase64_def charCode_loop_closed split: sum.splits)

lemmas atob_eval = atob_def strip_padding_def ascii_whitespace_def base64_index_def Let_def

lemma inline_audio_audio_response: "inline_audio (audio_response b) = Some b"
  by (simp add: inline_audio_def audio_response_def first_def)

lemma atob_error: "atob b = Inl e \<Longrightarrow> e = InvalidCharacterError"
  by (auto simp: atob_def Let_def split: if_splits option.splits)

text \<open>Two test vectors for the decoder, with and without padding and whitespace.\<close>

lemma atob_hello: "atob ''SGVsbG8='' = Inr [72, 101, 108, 108, 111]"
  by (simp add: atob_eval)

lemma atob_hello_unpadded: "atob '' SGVs bG8'' = Inr [72, 101, 108, 108, 111]"
  by (simp add: atob_eval)

text \<open>
  Claim C10, as amended. For every synthesis response, \<open>speak\<close> throws
  \<open>Error("No audio returned")\<close> when the inline data of the first part of the first
  candidate is absent or empty; otherwise it returns the bytes that \<open>atob\<close> decodes
  from that data, or fails with the \<open>InvalidCharacterError\<close> of \<open>atob\<close> when the
  data is not valid base64. It never returns a buffer for a response without
  inline audio data.
\<close>

theorem speak_outcomes:
  "(inline_audio r = None \<or> inline_audio r = Some [] \<longrightarrow>
      speak (Inr r) = Inl (Error ''No audio returned''))
   \<and> (inline_audio r = Some b \<and> b \<noteq> [] \<longrightarrow>
      speak (Inr r) =
        (case atob b of Inl e \<Rightarrow> Inl InvalidCharacterError | Inr s \<Rightarrow> Inr (map of_nat s)))
   \<and> (speak (Inr r) = Inr bytes \<longrightarrow>
      inline_audio r \<noteq> None \<and> inline_audio r \<noteq> Some [])"
proof (intro conjI impI)
  assume "inline_audio r = None \<or> inline_audio r = Some []"
  then show "speak (Inr r) = Inl (Error ''No audio returned'')"
    by (auto simp: speak_def)
next
  assume "inline_audio r = Some b \<and> b \<noteq> []"
  then show "speak (Inr r) =
        (case atob b of Inl e \<Rightarrow> Inl InvalidCharacterError | Inr s \<Rightarrow> Inr (map of_nat s))"
    by (auto simp: speak_def decodeBase64_eq split: sum.splits dest: atob_error)
next
  assume "speak (Inr r) = Inr bytes"
  then show "inline_audio r \<noteq> None"
    by (auto simp: speak_def split: option.splits)
next
  assume "speak (Inr r) = Inr bytes"
  then show "inline_audio r \<noteq> Some []"
    by (auto simp: speak_def split: option.splits)
qed

theorem speak_outcomes_witness:
  "inline_audio \<lparr>candidates = Some []\<rparr> = None
   \<and> speak (Inr \<lparr>candidates = Some []\<rparr>) = Inl (Error ''No audio returned'')
   \<and> inline_audio (audio_response ''AIAAAA=='') = Some ''AIAAAA==''
   \<and> speak (Inr (audio_response ''AIAAAA=='')) = Inr [0x00, 0x80, 0x00, 0x00]"
proof -
  have a: "inline_audio \<lparr>candidates = Some []\<rparr> = None"
    by (simp add: inline_audio_def first_def)
  have b: "inline_audio (audio_response ''AIAAAA=='') = Some ''AIAAAA==''"
    by (rule inline_audio_audio_response)
  have c: "atob ''AIAAAA=='' = Inr [0, 128, 0, 0]"
    by (simp add: atob_eval)
  show ?thesis
    using speak_outcomes [of "\<lparr>candidates = Some []\<rparr>" "''AIAAAA==''" "[]"]
      speak_outcomes [of "audio_response ''AIAAAA==''" "''AIAAAA==''" "[0x00, 0x80, 0x00, 0x00]"]
      a b c
    by simp
qed

text \<open>
  The claim as first stated, that \<open>speak\<close> either returns the decoded buffer or
  throws "No audio returned", fails for a response whose inline data is the
  string \<open>!\<close>: the data is present and not empty, and the call fails in \<open>atob\<close>.
\<close>

theorem speak_invalid_base64_counterexample:
  "inline_audio (audio_response ''!'') = Some ''!''
   \<and> speak (Inr (audio_response ''!'')) = Inl InvalidCharacterError"
  by (simp add: inline_audio_audio_response speak_def decodeBase64_eq atob_eval)

section \<open>Playback call site: malformed input\<close>

text \<open>
  Claim C4. For every byte buffer whose length is not a multiple of 2, the decode
  call fails with a \<open>RangeError\<close> (no buffer is produced, nothing is truncated), and
  \<open>handleSpeak\<close> catches the failure: it logs "Speech playback error:" with the
  error, starts no playback source and returns normally.
\<close>

theorem odd_length_rejected:
  "odd (length buf) \<longrightarrow>
     decodeRawPCM buf = Inl RangeError
     \<and> (speak generated = Inr buf \<longrightarrow>
          handleSpeak generated st =
            st\<lparr>audioContextRef := (if audioContextRef st = None then Some 24000 else audioContextRef st),
               console := console st @ [(''Speech playback error:'', RangeError)]\<rparr>
          \<and> started (handleSpeak generated st) = started st)"
  by (simp add: decodeRawPCM_odd handleSpeak_def catch_speak_def Let_def)

theorem odd_length_rejected_witness:
  "odd (length [1, 2, 3 :: byte])
   \<and> decodeRawPCM [1, 2, 3] = Inl RangeError
   \<and> speak (Inr (audio_response ''AQID'')) = Inr [1, 2, 3]
   \<and> handleSpeak (Inr (audio_response ''AQID'')) initial_app =
       initial_app\<lparr>audioContextRef := Some 24000,
                    console := [(''Speech playback error:'', RangeError)]\<rparr>
   \<and> started (handleSpeak (Inr (audio_response ''AQID'')) initial_app) = []"
proof -
  have s: "speak (Inr (audio_response ''AQID'')) = Inr [1, 2, 3]"
    by (simp add: inline_audio_audio_response speak_def decodeBase64_eq atob_eval)
  show ?thesis
    using odd_length_rejected [of "[1, 2, 3]" "Inr (audio_response ''AQID'')" initial_app] s
    by (simp add: initial_app_def)
qed

section \<open>Level analyzer\<close>

lemma length_getByteFrequencyData [simp]:
  "length (getByteFrequencyData frame array) = length array"
  by (simp add: getByteFrequencyData_def)

lemma getByteFrequencyData_same_length:
  "length frame = length array \<Longrightarrow> getByteFrequencyData frame array = frame"
  by (simp add: getByteFrequencyData_def)

lemma magnitude_bounds: "0 \<le> magnitude b" "magnitude b \<le> 255"
proof -
  show "0 \<le> magnitude b"
    unfolding magnitude_def by (rule of_nat_0_le_iff)
  have "unat b < 2 ^ LENGTH(8)"
    by (rule unsigned_less)
  then have "unat b \<le> 255"
    by simp
  then have "(of_nat (unat b) :: rat) \<le> of_nat 255"
    by (simp only: of_nat_le_iff)
  then show "magnitude b \<le> 255"
    by (simp add: magnitude_def)
qed

lemma sum_loop_Num:
  "n \<le> length d \<Longrightarrow> acc = Num a \<Longrightarrow>
   sum_loop d n i acc = Num (a + (\<Sum>k = i..<n. magnitude (d ! k)))"
proof (induction d n i acc arbitrary: a rule: sum_loop.induct)
  case (1 d n i acc)
  show ?case
  proof (cases "i < n")
    case True
    with "1.prems" have "js_add acc (to_number (typed_get d i)) = Num (a + magnitude (d ! i))"
      by (simp add: typed_get_def to_number_def)
    from "1.IH" [OF True "1.prems"(1) this] True show ?thesis
      by (simp add: sum_loop.simps [of d n i] sum.atLeast_Suc_lessThan add.assoc)
  next
    case False
    with "1.prems" show ?thesis
      by (simp add: sum_loop.simps [of d n i])
  qed
qed

lemma magnitude_sum_bounds:
  "0 \<le> (\<Sum>k = 0..<n. magnitude (d ! k))"
  "(\<Sum>k = 0..<n. magnitude (d ! k)) \<le> 255 * of_nat n"
proof -
  show "0 \<le> (\<Sum>k = 0..<n. magnitude (d ! k))"
    by (rule sum_nonneg) (rule magnitude_bounds)
  have "(\<Sum>k = 0..<n. magnitude (d ! k)) \<le> (\<Sum>k = 0..<n. 255)"
    by (rule sum_mono) (rule magnitude_bounds)
  then show "(\<Sum>k = 0..<n. magnitude (d ! k)) \<le> 255 * of_nat n"
    by (simp add: mult.commute)
qed

lemma updateVolume_value:
  assumes "bufferLength = length array" and "0 < bufferLength"
  shows "updateVolume (Some analyzer) bufferLength array frame =
           Some (Num (min 1 ((\<Sum>k = 0..<bufferLength.
              magnitude (getByteFrequencyData frame array ! k)) / of_nat bufferLength / 128)))"
  using assms by (simp add: updateVolume_def Let_def sum_loop_Num [where a = 0])

lemma mean_in_range:
  assumes "0 < n"
  shows "0 \<le> min 1 ((\<Sum>k = 0..<n. magnitude (d ! k)) / of_nat n / 128)"
    and "min 1 ((\<Sum>k = 0..<n. magnitude (d ! k)) / of_nat n / 128) \<le> 1"
  using assms magnitude_sum_bounds(1) [where n = n and d = d] by simp_all

lemma update_value:
  assumes "8 < length array"
  shows "update (Some analyzer) array frame =
           Some [Num (magnitude (getByteFrequencyData frame array ! 1) / 255),
                 Num (magnitude (getByteFrequencyData frame array ! 4) / 255),
                 Num (magnitude (getByteFrequencyData frame array ! 8) / 255)]"
  using assms by (simp add: update_def Let_def typed_get_def to_number_def)

lemma band_in_range: "in_unit_range (Num (magnitude b / 255))"
  using magnitude_bounds [of b] by simp

text \<open>
  Claim C6. For every buffer of frequency magnitudes read at a tick, the scalar
  volume of \<open>LiveMicIndicator\<close> (32 bins) is the mean magnitude over all bins
  divided by 128 and clamped to 1, and the three levels of \<open>MiniWaveform\<close> (16 bins)
  are the magnitudes of bins 1, 4 and 8, each divided by 255.
\<close>

theorem analyzer_formulas:
  "(length frame = 32 \<longrightarrow>
      LiveMicIndicator frame =
        Some (Num (min 1 (sum_list (map magnitude frame) / 32 / 128))))
   \<and> (length frame = 16 \<longrightarrow>
      MiniWaveform frame =
        Some [Num (magnitude (frame ! 1) / 255), Num (magnitude (frame ! 4) / 255),
              Num (magnitude (frame ! 8) / 255)])"
proof (intro conjI impI)
  assume len: "length frame = 32"
  have "(\<Sum>k = 0..<32. magnitude (frame ! k)) = sum_list (map magnitude frame)"
    using len by (simp add: sum_list_sum_nth)
  then show "LiveMicIndicator frame = Some (Num (min 1 (sum_list (map magnitude frame) / 32 / 128)))"
    using len
    by (simp add: LiveMicIndicator_def frequencyBinCount_def updateVolume_value
        getByteFrequencyData_same_length)
next
  assume len: "length frame = 16"
  then show "MiniWaveform frame =
        Some [Num (magnitude (frame ! 1) / 255), Num (magnitude (frame ! 4) / 255),
              Num (magnitude (frame ! 8) / 255)]"
    by (simp add: MiniWaveform_def frequencyBinCount_def update_value getByteFrequencyData_same_length)
qed

theorem analyzer_formulas_witness:
  "length (replicate 32 (64 :: byte)) = 32
   \<and> LiveMicIndicator (replicate 32 64) = Some (Num (1 / 2))
   \<and> length [0, 51, 0, 0, 102, 0, 0, 0, 255, 0, 0, 0, 0, 0, 0, 0 :: byte] = 16
   \<and> MiniWaveform [0, 51, 0, 0, 102, 0, 0, 0, 255, 0, 0, 0, 0, 0, 0, 0] =
       Some [Num (1 / 5), Num (2 / 5), Num 1]"
  using analyzer_formulas [of "replicate 32 64"]
    analyzer_formulas [of "[0, 51, 0, 0, 102, 0, 0, 0, 255, 0, 0, 0, 0, 0, 0, 0]"]
  by (simp add: magnitude_def sum_list_replicate)

text \<open>
  Claim C5. For every frame the analyser delivers, whatever its contents and
  its length, an all-zero frame included, the scalar volume of \<open>LiveMicIndicator\<close>
  and each of the three levels of \<open>MiniWaveform\<close> is a number in \<open>[0, 1]\<close>, never
  \<open>NaN\<close>. The bin buffers that the components read have the fixed sizes 32 and
  16, so the mean never divides by a bin count of zero.
\<close>

theorem levels_in_range:
  "(case LiveMicIndicator frame of None \<Rightarrow> False | Some v \<Rightarrow> in_unit_range v)
   \<and> (case MiniWaveform frame of None \<Rightarrow> False
        | Some levels \<Rightarrow> length levels = 3 \<and> list_all in_unit_range levels)
   \<and> LiveMicIndicator (replicate 32 0) = Some (Num 0)
   \<and> MiniWaveform (replicate 16 0) = Some [Num 0, Num 0, Num 0]"
proof (intro conjI)
  show "case LiveMicIndicator frame of None \<Rightarrow> False | Some v \<Rightarrow> in_unit_range v"
    using mean_in_range [of 32 "getByteFrequencyData frame (replicate 32 0)"]
    by (simp add: LiveMicIndicator_def frequencyBinCount_def updateVolume_value)
  show "case MiniWaveform frame of None \<Rightarrow> False
        | Some levels \<Rightarrow> length levels = 3 \<and> list_all in_unit_range levels"
    by (simp add: MiniWaveform_def frequencyBinCount_def update_value band_in_range del: in_unit_range.simps)
  show "LiveMicIndicator (replicate 32 0) = Some (Num 0)"
    by (simp add: LiveMicIndicator_def frequencyBinCount_def updateVolume_value
        getByteFrequencyData_same_length magnitude_def)
  show "MiniWaveform (replicate 16 0) = Some [Num 0, Num 0, Num 0]"
    by (simp add: MiniWaveform_def frequencyBinCount_def update_value
        getByteFrequencyData_same_length magnitude_def)
qed

section \<open>Rounding to doubles and 32-bit floats\<close>

lemma round_half_even_error: "\<bar>of_int (round_half_even y) - y\<bar> \<le> 1 / 2"
proof -
  have "of_int \<lfloor>y\<rfloor> \<le> y" "y < of_int \<lfloor>y\<rfloor> + 1"
    by linarith+
  then show ?thesis
    by (auto simp: round_half_even_def Let_def)
qed

lemma binary_exponent_bounds:
  assumes "0 < x"
  shows "2 powi binary_exponent x \<le> x" and "x < 2 powi (binary_exponent x + 1)"
proof -
  have "2 powi binary_exponent x \<le> x \<and> x < 2 powi (binary_exponent x + 1)"
  proof (cases "1 \<le> x")
    case True
    let ?n = "\<lfloor>x\<rfloor>"
    from True have n: "0 < ?n" by simp
    from bitlen_bounds [OF n] have lo: "2 ^ nat (bitlen ?n - 1) \<le> ?n" and hi: "?n < 2 ^ nat (bitlen ?n)"
      by simp_all
    from n have bl: "1 \<le> bitlen ?n"
      using bitlen_eq_zero_iff [of ?n] bitlen_nonneg [of ?n] by linarith
    have "(of_int (2 ^ nat (bitlen ?n - 1)) :: rat) \<le> of_int ?n"
      using lo by (simp only: of_int_le_iff)
    also have "\<dots> \<le> x" by simp
    finally have a: "(2 :: rat) ^ nat (bitlen ?n - 1) \<le> x" by simp
    from hi have "?n + 1 \<le> 2 ^ nat (bitlen ?n)" by simp
    then have "(of_int (?n + 1) :: rat) \<le> of_int (2 ^ nat (bitlen ?n))"
      by (simp only: of_int_le_iff)
    moreover have "x < of_int (?n + 1)" by simp linarith
    ultimately have b: "x < (2 :: rat) ^ nat (bitlen ?n)" by simp
    from True bl a b show ?thesis
      by (simp add: binary_exponent_def power_int_def)
  next
    case False
    let ?y = "1 / x"
    let ?n = "\<lfloor>?y\<rfloor>"
    let ?l = "bitlen ?n"
    from False assms have y1: "1 < ?y" by simp
    then have n: "0 < ?n" by simp
    from bitlen_bounds [OF n] have lo: "2 ^ nat (?l - 1) \<le> ?n" and hi: "?n < 2 ^ nat ?l"
      by simp_all
    from n have bl: "1 \<le> ?l"
      using bitlen_eq_zero_iff [of ?n] bitlen_nonneg [of ?n] by linarith
    have "(of_int (2 ^ nat (?l - 1)) :: rat) \<le> of_int ?n"
      using lo by (simp only: of_int_le_iff)
    also have "\<dots> \<le> ?y" by simp
    finally have a: "(2 :: rat) ^ nat (?l - 1) \<le> 1 / x" by simp
    from hi have "?n + 1 \<le> 2 ^ nat ?l" by simp
    then have "(of_int (?n + 1) :: rat) \<le> of_int (2 ^ nat ?l)"
      by (simp only: of_int_le_iff)
    moreover have "?y < of_int (?n + 1)" by simp linarith
    ultimately have b: "1 / x < (2 :: rat) ^ nat ?l" by simp
    from a assms have a': "x * 2 ^ nat (?l - 1) \<le> 1"
      by (simp add: field_simps)
    from b assms have b': "1 < x * 2 ^ nat ?l"
      by (simp add: field_simps)
    have s: "(2 :: rat) ^ nat ?l = 2 * 2 ^ nat (?l - 1)"
      using bl by (metis Suc_nat_eq_nat_zadd1 add.commute diff_add_cancel diff_ge_0_iff_ge power_Suc)
    show ?thesis
    proof (cases "x * 2 ^ nat (?l - 1) = 1")
      case True
      then have x: "x = 1 / 2 ^ nat (?l - 1)"
        by (simp add: field_simps)
      have e: "binary_exponent x = 1 - ?l"
        using False True by (simp add: binary_exponent_def Let_def)
      have p1: "(2 :: rat) powi (1 - ?l) = 1 / 2 ^ nat (?l - 1)"
        using bl by (cases "?l = 1") (simp_all add: power_int_def field_simps)
      have p2: "(2 :: rat) powi (1 - ?l + 1) = 2 * (1 / 2 ^ nat (?l - 1))"
        using power_int_add [of "2 :: rat" "1 - ?l" 1] p1 by simp
      show ?thesis
        unfolding e p1 p2 using x assms by simp
    next
      case neq: False
      have e: "binary_exponent x = - ?l"
        using False neq by (simp add: binary_exponent_def Let_def)
      have p1: "(2 :: rat) powi (- ?l) = 1 / 2 ^ nat ?l"
        using bl by (simp add: power_int_def field_simps)
      have p2: "(2 :: rat) powi (- ?l + 1) = 1 / 2 ^ nat (?l - 1)"
        using power_int_add [of "2 :: rat" "- ?l" 1] p1 s by simp
      from a' neq have "x * 2 ^ nat (?l - 1) < 1" by simp
      then have "x < 1 / 2 ^ nat (?l - 1)"
        by (simp add: field_simps)
      moreover from b' have "1 / 2 ^ nat ?l < x"
        by (simp add: field_simps)
      ultimately show ?thesis
        unfolding e p1 p2 by simp
    qed
  qed
  then show "2 powi binary_exponent x \<le> x" and "x < 2 powi (binary_exponent x + 1)"
    by simp_all
qed

lemma round_to_precision_error:
  assumes "0 < x"
  shows "\<bar>round_to_precision p x - x\<bar> \<le> x / 2 ^ p"
proof -
  let ?e = "binary_exponent x"
  let ?q = "(2 :: rat) powi (?e - int p + 1)"
  have q: "0 < ?q" by simp
  have r: "round_to_precision p x = of_int (round_half_even (x / ?q)) * ?q"
    using assms by (simp add: round_to_precision_def Let_def)
  have "\<bar>of_int (round_half_even (x / ?q)) * ?q - x\<bar> =
        \<bar>of_int (round_half_even (x / ?q)) - x / ?q\<bar> * ?q"
  proof -
    have "of_int (round_half_even (x / ?q)) * ?q - x = (of_int (round_half_even (x / ?q)) - x / ?q) * ?q"
      using q by (simp add: field_simps)
    then show ?thesis
      using q by (simp add: abs_mult)
  qed
  also have "\<dots> \<le> 1 / 2 * ?q"
    using round_half_even_error [of "x / ?q"] q by (intro mult_right_mono) simp_all
  also have "1 / 2 * ?q = 2 powi ?e / 2 ^ p"
  proof -
    have "?q = 2 powi (?e - int p) * 2"
      using power_int_add [of "2 :: rat" "?e - int p" 1] by simp
    moreover have "(2 :: rat) powi (?e - int p) = 2 powi ?e / 2 ^ p"
      using power_int_diff [of "2 :: rat" ?e "int p"] by simp
    ultimately show ?thesis
      by simp
  qed
  also have "\<dots> \<le> x / 2 ^ p"
    using binary_exponent_bounds(1) [OF assms] by (simp add: divide_right_mono)
  finally show ?thesis
    by (simp only: r)
qed

lemma round_to_precision_positive:
  assumes "0 < x" and "0 < p"
  shows "0 < round_to_precision p x"
proof -
  have "(2 :: rat) ^ 1 \<le> 2 ^ p"
    using assms(2) by (intro power_increasing) simp_all
  then have "x / 2 ^ p \<le> x / 2"
    using assms(1) by (simp add: field_simps)
  with round_to_precision_error [OF assms(1), of p] assms(1) show ?thesis
    by linarith
qed

lemma float32_of_double_error:
  assumes "0 \<le> x"
  shows "\<bar>to_float32 (to_double x) - x\<bar> \<le> x / 2 ^ 23"
proof (cases "x = 0")
  case True
  then show ?thesis
    by (simp add: to_float32_def to_double_def round_to_precision_def)
next
  case False
  with assms have x: "0 < x" by simp
  let ?d = "to_double x"
  have d: "\<bar>?d - x\<bar> \<le> x / 2 ^ 53"
    unfolding to_double_def by (rule round_to_precision_error [OF x])
  have dpos: "0 < ?d"
    unfolding to_double_def by (rule round_to_precision_positive [OF x]) simp
  have f: "\<bar>to_float32 ?d - ?d\<bar> \<le> ?d / 2 ^ 24"
    unfolding to_float32_def by (rule round_to_precision_error [OF dpos])
  from d have "?d \<le> x + x / 2 ^ 53" by linarith
  then have "?d / 2 ^ 24 \<le> (x + x / 2 ^ 53) / 2 ^ 24"
    by (simp add: divide_right_mono)
  with f have f': "\<bar>to_float32 ?d - ?d\<bar> \<le> (x + x / 2 ^ 53) / 2 ^ 24"
    by linarith
  have "\<bar>to_float32 ?d - x\<bar> \<le> \<bar>to_float32 ?d - ?d\<bar> + \<bar>?d - x\<bar>"
    by linarith
  also have "\<dots> \<le> (x + x / 2 ^ 53) / 2 ^ 24 + x / 2 ^ 53"
    using f' d by linarith
  also have "\<dots> \<le> x / 2 ^ 23"
    using x by simp
  finally show ?thesis .
qed

lemma round_to_precision_dyadic:
  "\<exists>m k. round_to_precision p x = of_int m * 2 powi k"
proof (cases "x = 0")
  case True
  then have "round_to_precision p x = of_int 0 * 2 powi 0"
    by (simp add: round_to_precision_def)
  then show ?thesis by blast
next
  case False
  let ?q = "(2 :: rat) powi (binary_exponent \<bar>x\<bar> - int p + 1)"
  let ?m = "round_half_even (\<bar>x\<bar> / ?q)"
  have "sgn x = of_int (if 0 < x then 1 else - 1)"
    using False by (simp add: sgn_if)
  then obtain j :: int where j: "sgn x = of_int j" ..
  have "round_to_precision p x = of_int (j * ?m) * ?q"
    using False by (simp add: round_to_precision_def Let_def j)
  then show ?thesis by blast
qed

lemma dyadic_fiftieth:
  assumes "of_int s / 50 = (of_int m :: rat) * 2 powi k"
  shows "25 dvd s"
proof (cases "0 \<le> k")
  case True
  then have "(2 :: rat) powi k = of_int (2 ^ nat k)"
    by (simp add: power_int_def)
  with assms have "(of_int s :: rat) = of_int (50 * m * 2 ^ nat k)"
    by (simp add: field_simps)
  then have "s = 50 * m * 2 ^ nat k"
    by (simp only: of_int_eq_iff)
  then show ?thesis by simp
next
  case False
  then have "(2 :: rat) powi k = 1 / of_int (2 ^ nat (- k))"
    by (simp add: power_int_def field_simps)
  with assms have "(of_int (s * 2 ^ nat (- k)) :: rat) = of_int (50 * m)"
    by (simp add: field_simps)
  then have "s * 2 ^ nat (- k) = 50 * m"
    by (simp only: of_int_eq_iff)
  then have "25 dvd s * 2 ^ nat (- k)"
    by simp
  moreover have "coprime (25 :: int) (2 ^ nat (- k))"
  proof -
    have "coprime (25 :: int) 2"
      by (simp add: coprime_right_2_iff_odd)
    then show ?thesis by simp
  qed
  ultimately show ?thesis
    by (simp add: coprime_dvd_mult_left_iff)
qed

lemma float_values:
  "to_float32 (to_double 0) = 0"
  "to_float32 (to_double (1 / 2)) = 1 / 2"
  "to_float32 (to_double 1) = 1"
  "to_float32 (to_double (3 / 2)) = 3 / 2"
  "to_float32 (to_double 2) = 2"
  by code_simp+

lemma float_33: "to_float32 (to_double (33 / 50)) = 11072963 / 16777216"
  by code_simp

lemma float_exact_iff:
  assumes "0 \<le> s" and "s \<le> 100"
  shows "to_float32 (to_double (of_int s / 50)) = of_int s / 50 \<longleftrightarrow> 25 dvd s"
proof
  assume eq: "to_float32 (to_double (of_int s / 50)) = of_int s / 50"
  obtain m k where "to_float32 (to_double (of_int s / 50)) = of_int m * 2 powi k"
    unfolding to_float32_def using round_to_precision_dyadic by blast
  with eq have "of_int s / 50 = (of_int m :: rat) * 2 powi k"
    by simp
  then show "25 dvd s"
    by (rule dyadic_fiftieth)
next
  assume "25 dvd s"
  then obtain j where j: "s = 25 * j" ..
  with assms have "j = 0 \<or> j = 1 \<or> j = 2 \<or> j = 3 \<or> j = 4"
    by presburger
  then show "to_float32 (to_double (of_int s / 50)) = of_int s / 50"
    using j float_values by auto
qed

section \<open>Recorder\<close>

lemma grants_granted: "grants granted st"
  by (simp add: grants_def granted_def)

lemma startRecording_grants:
  assumes "grants env st"
  shows "startRecording env st =
     st\<lparr>error := None, audioChunksRef := [],
        streams := streams st @ [\<lparr>track_stops = 0\<rparr>],
        streamRef := Some (length (streams st)),
        contexts := contexts st @
          [\<lparr>gain_value = Some (to_float32 (to_double (of_int (sensitivity st) / 50))),
            close_calls = 0\<rparr>],
        recorders := recorders st @ [\<lparr>state = Recording, graph = length (contexts st)\<rparr>],
        mediaRecorderRef := Some (length (recorders st)),
        isRecording := True\<rparr>"
  using assms
  by (simp add: grants_def startRecording_def build_graph_def start_recorder_def Let_def)

lemma fold_ondataavailable:
  "fold ondataavailable cs st =
     st\<lparr>audioChunksRef := audioChunksRef st @ filter (\<lambda>c. 0 < blob_size c) cs\<rparr>"
  by (induction cs arbitrary: st) (simp_all add: ondataavailable_def)

lemma run_append: "run (es @ es') st = run es' (run es st)"
  by (simp add: run_def)

lemma run_Cons: "run (e # es) st = run es (step e st)"
  by (simp add: run_def)

lemma run_Nil: "run [] st = st"
  by (simp add: run_def)

lemma startRecording_clears: "audioChunksRef (startRecording env st) = []"
  by (simp add: startRecording_def build_graph_def start_recorder_def catch_recording_def Let_def
      split: option.splits)

lemma filter_nonempty_chunks:
  "list_all (\<lambda>c. 0 < blob_size c) cs \<Longrightarrow> filter (\<lambda>c. 0 < blob_size c) cs = cs"
  by (simp add: list_all_iff)

text \<open>
  Claim C1, as amended. When the platform grants the recording, non-empty chunks
  arrive between \<open>startRecording\<close> and the stop event (some before
  \<open>stopRecording\<close>, the rest after it, as the recorder flushes), and the stop
  event is handled, the object handed to \<open>handleAudioProcess\<close> is the ordered
  concatenation of the chunks, tagged \<open>audio/webm\<close>. The chunk buffer still holds
  the chunks after the handoff; the next \<open>startRecording\<close> empties it.
\<close>

theorem recorder_round_trip:
  "grants env st \<and> list_all (\<lambda>c. 0 < blob_size c) (cs1 @ cs2) \<longrightarrow>
     (let st' = onstop (length (recorders st))
                  (fold ondataavailable cs2
                    (stopRecording (fold ondataavailable cs1 (startRecording env st))))
      in readers st' =
           readers st @ [\<lparr>blob_bytes = concat (map blob_bytes (cs1 @ cs2)), blob_type = ''audio/webm''\<rparr>]
         \<and> audioChunksRef st' = cs1 @ cs2
         \<and> audioChunksRef (startRecording env' st') = [])"
proof (intro impI, elim conjE)
  assume g: "grants env st" and ne: "list_all (\<lambda>c. 0 < blob_size c) (cs1 @ cs2)"
  from ne have f: "filter (\<lambda>c. 0 < blob_size c) cs1 = cs1" "filter (\<lambda>c. 0 < blob_size c) cs2 = cs2"
    by (simp_all add: filter_nonempty_chunks)
  show "let st' = onstop (length (recorders st))
                  (fold ondataavailable cs2
                    (stopRecording (fold ondataavailable cs1 (startRecording env st))))
      in readers st' =
           readers st @ [\<lparr>blob_bytes = concat (map blob_bytes (cs1 @ cs2)), blob_type = ''audio/webm''\<rparr>]
         \<and> audioChunksRef st' = cs1 @ cs2
         \<and> audioChunksRef (startRecording env' st') = []"
    by (simp add: Let_def startRecording_clears startRecording_grants [OF g] fold_ondataavailable f
        stopRecording_def stop_tracks_def onstop_def new_Blob_def handleAudioProcess_def
        close_context_def)
qed

theorem recorder_round_trip_witness:
  "grants granted initial_app
   \<and> list_all (\<lambda>c. 0 < blob_size c)
       ([\<lparr>blob_bytes = [1, 2], blob_type = ''audio/webm''\<rparr>,
         \<lparr>blob_bytes = [3], blob_type = ''audio/webm''\<rparr>] @
        [\<lparr>blob_bytes = [4, 5], blob_type = ''audio/webm''\<rparr>])
   \<and> readers (onstop 0
       (fold ondataavailable [\<lparr>blob_bytes = [4, 5], blob_type = ''audio/webm''\<rparr>]
         (stopRecording (fold ondataavailable
            [\<lparr>blob_bytes = [1, 2], blob_type = ''audio/webm''\<rparr>,
             \<lparr>blob_bytes = [3], blob_type = ''audio/webm''\<rparr>]
            (startRecording granted initial_app))))) =
       [\<lparr>blob_bytes = [1, 2, 3, 4, 5], blob_type = ''audio/webm''\<rparr>]"
proof -
  have g: "grants granted initial_app"
    by (rule grants_granted)
  have ne: "list_all (\<lambda>c. 0 < blob_size c)
       ([\<lparr>blob_bytes = [1, 2], blob_type = ''audio/webm''\<rparr>,
         \<lparr>blob_bytes = [3], blob_type = ''audio/webm''\<rparr>] @
        [\<lparr>blob_bytes = [4, 5], blob_type = ''audio/webm''\<rparr>])"
    by (simp add: blob_size_def)
  have r: "recorders initial_app = []" "readers initial_app = []"
    by (simp_all add: initial_app_def)
  show ?thesis
    using recorder_round_trip [of granted initial_app
        "[\<lparr>blob_bytes = [1, 2], blob_type = ''audio/webm''\<rparr>,
          \<lparr>blob_bytes = [3], blob_type = ''audio/webm''\<rparr>]"
        "[\<lparr>blob_bytes = [4, 5], blob_type = ''audio/webm''\<rparr>]" granted] g ne r
    by (simp add: Let_def)
qed

text \<open>
  The claim as first stated has the buffer empty right after the handoff. For the
  chunks \<open>[1, 2]\<close>, \<open>[3]\<close>, \<open>[4, 5]\<close> the handed-off object is \<open>[1, 2, 3, 4, 5]\<close> and
  the buffer still holds the three chunks.
\<close>

theorem buffer_kept_counterexample:
  "audioChunksRef
     (run [Press granted,
           DataAvailable 0 \<lparr>blob_bytes = [1, 2], blob_type = ''audio/webm''\<rparr>,
           DataAvailable 0 \<lparr>blob_bytes = [3], blob_type = ''audio/webm''\<rparr>,
           Release,
           DataAvailable 0 \<lparr>blob_bytes = [4, 5], blob_type = ''audio/webm''\<rparr>,
           Stopped 0] initial_app) =
     [\<lparr>blob_bytes = [1, 2], blob_type = ''audio/webm''\<rparr>,
      \<lparr>blob_bytes = [3], blob_type = ''audio/webm''\<rparr>,
      \<lparr>blob_bytes = [4, 5], blob_type = ''audio/webm''\<rparr>]
   \<and> readers
     (run [Press granted,
           DataAvailable 0 \<lparr>blob_bytes = [1, 2], blob_type = ''audio/webm''\<rparr>,
           DataAvailable 0 \<lparr>blob_bytes = [3], blob_type = ''audio/webm''\<rparr>,
           Release,
           DataAvailable 0 \<lparr>blob_bytes = [4, 5], blob_type = ''audio/webm''\<rparr>,
           Stopped 0] initial_app) =
     [\<lparr>blob_bytes = [1, 2, 3, 4, 5], blob_type = ''audio/webm''\<rparr>]"
  by (simp add: run_def startRecording_grants [OF grants_granted] initial_app_def
      ondataavailable_def blob_size_def stopRecording_def stop_tracks_def onstop_def new_Blob_def
      handleAudioProcess_def close_context_def)

section \<open>Gain stage\<close>

text \<open>
  Claim C2, as amended. For every gain setting \<open>s\<close>, the gain node that
  \<open>startRecording\<close> builds has the factor \<open>s / 50\<close> rounded to a double and then to
  a 32-bit float. For the settings 0 to 100 that factor is \<open>s / 50\<close> exactly when
  \<open>s\<close> is a multiple of 25, so 1 at 50, 0 at 0 and 2 at 100, and it differs from
  \<open>s / 50\<close> by at most \<open>s / 50\<close> times \<open>2\<^sup>-\<^sup>2\<^sup>3\<close> at every setting.
\<close>

theorem gain_factor:
  "getUserMedia env (constraints_of st) = None \<and> throws_at env NewAudioContext = None
     \<and> throws_at env CreateMediaStreamSource = None \<longrightarrow>
   gain_value (contexts (startRecording env (st\<lparr>sensitivity := s\<rparr>)) ! length (contexts st)) =
     Some (to_float32 (to_double (of_int s / 50)))
   \<and> (0 \<le> s \<and> s \<le> 100 \<longrightarrow>
        (to_float32 (to_double (of_int s / 50)) = of_int s / 50 \<longleftrightarrow> 25 dvd s)
        \<and> \<bar>to_float32 (to_double (of_int s / 50)) - of_int s / 50\<bar> \<le> of_int s / 50 / 2 ^ 23)
   \<and> gain_value (contexts (startRecording env (st\<lparr>sensitivity := 50\<rparr>)) ! length (contexts st)) = Some 1
   \<and> gain_value (contexts (startRecording env (st\<lparr>sensitivity := 0\<rparr>)) ! length (contexts st)) = Some 0
   \<and> gain_value (contexts (startRecording env (st\<lparr>sensitivity := 100\<rparr>)) ! length (contexts st)) = Some 2"
proof (intro impI)
  assume env: "getUserMedia env (constraints_of st) = None \<and> throws_at env NewAudioContext = None
     \<and> throws_at env CreateMediaStreamSource = None"
  then have e: "getUserMedia env (constraints_of st) = None"
    "throws_at env NewAudioContext = None" "throws_at env CreateMediaStreamSource = None"
    by simp_all
  have c: "constraints_of (st\<lparr>sensitivity := t\<rparr>) = constraints_of st" for t
    by (simp add: constraints_of_def)
  have g: "gain_value (contexts (startRecording env (st\<lparr>sensitivity := t\<rparr>)) ! length (contexts st)) =
        Some (to_float32 (to_double (of_int t / 50)))" for t
    using e
    by (simp add: startRecording_def c build_graph_def start_recorder_def catch_recording_def
        Let_def split: option.splits)
  have r: "0 \<le> s \<and> s \<le> 100 \<longrightarrow>
        (to_float32 (to_double (of_int s / 50)) = of_int s / 50 \<longleftrightarrow> 25 dvd s)
        \<and> \<bar>to_float32 (to_double (of_int s / 50)) - of_int s / 50\<bar> \<le> of_int s / 50 / 2 ^ 23"
    using float_exact_iff [of s] float32_of_double_error [of "of_int s / 50"] by simp
  from g [of s] g [of 50] g [of 0] g [of 100] r
  show "gain_value (contexts (startRecording env (st\<lparr>sensitivity := s\<rparr>)) ! length (contexts st)) =
     Some (to_float32 (to_double (of_int s / 50)))
   \<and> (0 \<le> s \<and> s \<le> 100 \<longrightarrow>
        (to_float32 (to_double (of_int s / 50)) = of_int s / 50 \<longleftrightarrow> 25 dvd s)
        \<and> \<bar>to_float32 (to_double (of_int s / 50)) - of_int s / 50\<bar> \<le> of_int s / 50 / 2 ^ 23)
   \<and> gain_value (contexts (startRecording env (st\<lparr>sensitivity := 50\<rparr>)) ! length (contexts st)) = Some 1
   \<and> gain_value (contexts (startRecording env (st\<lparr>sensitivity := 0\<rparr>)) ! length (contexts st)) = Some 0
   \<and> gain_value (contexts (startRecording env (st\<lparr>sensitivity := 100\<rparr>)) ! length (contexts st)) = Some 2"
    by (simp add: float_values)
qed

theorem gain_factor_witness:
  "getUserMedia granted (constraints_of initial_app) = None
   \<and> throws_at granted NewAudioContext = None
   \<and> throws_at granted CreateMediaStreamSource = None
   \<and> (0 :: int) \<le> 75 \<and> (75 :: int) \<le> 100 \<and> (25 :: int) dvd 75
   \<and> gain_value (contexts (startRecording granted (initial_app\<lparr>sensitivity := 75\<rparr>)) ! 0) = Some (3 / 2)"
proof -
  have e: "getUserMedia granted (constraints_of initial_app) = None"
    "throws_at granted NewAudioContext = None" "throws_at granted CreateMediaStreamSource = None"
    by (simp_all add: granted_def)
  have c: "length (contexts initial_app) = 0"
    by (simp add: initial_app_def)
  show ?thesis
    using gain_factor [of granted initial_app 75] e c
    by (simp add: float_values)
qed

text \<open>
  The claim as first stated has the factor equal to \<open>s / 50\<close> exactly at every
  setting from 0 to 100. At the setting 33 the factor of the gain node is the
  32-bit float \<open>11072963 / 2\<^sup>2\<^sup>4\<close>, which is not \<open>33 / 50\<close>.
\<close>

theorem gain_rounded_counterexample:
  "gain_value (contexts (startRecording granted (initial_app\<lparr>sensitivity := 33\<rparr>)) ! 0) =
     Some (11072963 / 16777216)
   \<and> (11072963 / 16777216 :: rat) \<noteq> 33 / 50"
proof -
  have g: "grants granted (initial_app\<lparr>sensitivity := 33\<rparr>)"
    by (rule grants_granted)
  have c: "contexts initial_app = []"
    by (simp add: initial_app_def)
  show ?thesis
    by (simp add: startRecording_grants [OF g] c float_33)
qed

lemma gain_close_context:
  "c < length (contexts st) \<Longrightarrow>
   length (contexts (close_context k st)) = length (contexts st) \<and>
   gain_value (contexts (close_context k st) ! c) = gain_value (contexts st ! c)"
  by (simp add: close_context_def nth_list_update)

lemma gain_startRecording:
  "c < length (contexts st) \<Longrightarrow>
   c < length (contexts (startRecording env st)) \<and>
   gain_value (contexts (startRecording env st) ! c) = gain_value (contexts st ! c)"
  by (simp add: startRecording_def build_graph_def start_recorder_def catch_recording_def Let_def
      nth_append split: option.splits)

lemma contexts_stopRecording: "contexts (stopRecording st) = contexts st"
  by (simp add: stopRecording_def stop_tracks_def Let_def split: option.splits)

lemma contexts_handleSpeak: "contexts (handleSpeak g st) = contexts st"
  by (simp add: handleSpeak_def catch_speak_def Let_def split: sum.splits)

lemma gain_step:
  assumes "c < length (contexts st)"
  shows "c < length (contexts (step e st)) \<and>
         gain_value (contexts (step e st) ! c) = gain_value (contexts st ! c)"
proof (cases e)
  case (Press env)
  then show ?thesis
    using assms gain_startRecording [OF assms, of env] by simp
next
  case (Stopped r)
  then show ?thesis
    using assms
      gain_close_context [of c "handleAudioProcess (new_Blob (audioChunksRef st) ''audio/webm'') st"]
    by (simp add: onstop_def Let_def handleAudioProcess_def)
qed (simp_all add: assms contexts_stopRecording contexts_handleSpeak onSensitivityChange_def
    ondataavailable_def)

lemma gain_run:
  "c < length (contexts st) \<Longrightarrow>
   c < length (contexts (run events st)) \<and>
   gain_value (contexts (run events st) ! c) = gain_value (contexts st ! c)"
proof (induction events arbitrary: st)
  case Nil
  then show ?case by (simp add: run_Nil)
next
  case (Cons e events)
  from gain_step [OF Cons.prems, of e] Cons.IH [of "step e st"] show ?case
    by (simp add: run_Cons)
qed

text \<open>
  Claim C7, as amended. The gain setting is read once, when \<open>startRecording\<close>
  builds the graph. No later event changes the factor of a graph that exists, a
  change of the setting during the recording included: the live stream keeps
  the factor it started with, and the new setting is the factor of the graph
  that the next \<open>startRecording\<close> builds.
\<close>

theorem gain_fixed_at_start:
  "(c < length (contexts st) \<longrightarrow>
      gain_value (contexts (run events st) ! c) = gain_value (contexts st ! c))
   \<and> (grants env st \<longrightarrow>
      gain_value (contexts (run events (startRecording env st)) ! length (contexts st)) =
        Some (to_float32 (to_double (of_int (sensitivity st) / 50))))
   \<and> (grants env (onSensitivityChange val st) \<longrightarrow>
      gain_value (contexts (startRecording env (onSensitivityChange val st)) ! length (contexts st)) =
        Some (to_float32 (to_double (of_int val / 50))))"
proof (intro conjI impI)
  assume "c < length (contexts st)"
  then show "gain_value (contexts (run events st) ! c) = gain_value (contexts st ! c)"
    by (simp add: gain_run)
next
  assume g: "grants env st"
  have "length (contexts st) < length (contexts (startRecording env st))"
    by (simp add: startRecording_grants [OF g])
  from gain_run [OF this, of events]
  show "gain_value (contexts (run events (startRecording env st)) ! length (contexts st)) =
        Some (to_float32 (to_double (of_int (sensitivity st) / 50)))"
    by (simp add: startRecording_grants [OF g])
next
  assume g: "grants env (onSensitivityChange val st)"
  show "gain_value (contexts (startRecording env (onSensitivityChange val st)) ! length (contexts st)) =
        Some (to_float32 (to_double (of_int val / 50)))"
    unfolding startRecording_grants [OF g] by (simp add: onSensitivityChange_def)
qed

theorem gain_fixed_at_start_witness:
  "0 < length (contexts (startRecording granted initial_app))
   \<and> grants granted initial_app
   \<and> grants granted (onSensitivityChange 100 initial_app)
   \<and> gain_value (contexts (run [SensitivityChange 100] (startRecording granted initial_app)) ! 0) = Some 1
   \<and> gain_value (contexts (startRecording granted (onSensitivityChange 100 initial_app)) ! 0) = Some 2"
proof -
  have s: "startRecording granted initial_app =
      initial_app\<lparr>streams := [\<lparr>track_stops = 0\<rparr>], streamRef := Some 0,
        contexts := [\<lparr>gain_value = Some 1, close_calls = 0\<rparr>],
        recorders := [\<lparr>state = Recording, graph = 0\<rparr>],
        mediaRecorderRef := Some 0, isRecording := True\<rparr>"
    by (simp add: startRecording_grants [OF grants_granted] initial_app_def float_values)
  show ?thesis
    using gain_fixed_at_start [of 0 "startRecording granted initial_app" "[SensitivityChange 100]"
        granted 100]
      gain_fixed_at_start [of 0 initial_app "[SensitivityChange 100]" granted 100]
    by (simp add: s grants_granted) (simp add: initial_app_def float_values)
qed

text \<open>
  The claim as first stated has a change of the setting take effect on the live
  stream. After a recording starts at 50 and the setting moves to 100, the
  recorder is still recording and the factor of its graph is still 1, not 2.
\<close>

theorem live_gain_counterexample:
  "state (recorders (run [Press granted, SensitivityChange 100] initial_app) ! 0) = Recording
   \<and> sensitivity (run [Press granted, SensitivityChange 100] initial_app) = 100
   \<and> gain_value (contexts (run [Press granted, SensitivityChange 100] initial_app) ! 0) = Some 1"
  by (simp add: run_def startRecording_grants [OF grants_granted] initial_app_def
      onSensitivityChange_def float_values)

section \<open>Starting twice, and failing after the stream was acquired\<close>

text \<open>
  In every state, a granted \<open>startRecording\<close> adds a recording recorder and leaves
  the recorders that are recording as they are.
\<close>

lemma active_recorders_append:
  "active_recorders (st\<lparr>recorders := recorders st @ [r]\<rparr>) =
     active_recorders st @ (if state r = Recording then [length (recorders st)] else [])"
proof -
  have "filter (\<lambda>k. state ((recorders st @ [r]) ! k) = Recording) [0..<length (recorders st)] =
        filter (\<lambda>k. state (recorders st ! k) = Recording) [0..<length (recorders st)]"
    by (rule filter_cong) (simp_all add: nth_append)
  then show ?thesis
    by (simp add: active_recorders_def)
qed

lemma startRecording_keeps_active:
  assumes "grants env st"
  shows "active_recorders (startRecording env st) = active_recorders st @ [length (recorders st)]"
proof -
  have "active_recorders (startRecording env st) =
        active_recorders (st\<lparr>recorders := recorders st @ [\<lparr>state = Recording, graph = length (contexts st)\<rparr>]\<rparr>)"
    by (simp add: startRecording_grants [OF assms] active_recorders_def)
  then show ?thesis
    by (simp add: active_recorders_append)
qed

text \<open>
  Claim C8 fails on the code: \<open>startRecording\<close> has no check of a recording in
  progress. With two presses and no release in between, both recorders are
  recording, the chunks of both go into the same buffer, and the release stops
  only the second recorder and the second stream: the first recorder keeps
  recording and the tracks of the first stream stay live.
\<close>

theorem second_start_keeps_first_recorder:
  "active_recorders (run [Press granted, Press granted] initial_app) = [0, 1]
   \<and> mediaRecorderRef (run [Press granted, Press granted] initial_app) = Some 1
   \<and> audioChunksRef
       (run [Press granted, Press granted,
             DataAvailable 0 \<lparr>blob_bytes = [1], blob_type = ''audio/webm''\<rparr>,
             DataAvailable 1 \<lparr>blob_bytes = [2], blob_type = ''audio/webm''\<rparr>] initial_app) =
       [\<lparr>blob_bytes = [1], blob_type = ''audio/webm''\<rparr>,
        \<lparr>blob_bytes = [2], blob_type = ''audio/webm''\<rparr>]
   \<and> active_recorders (run [Press granted, Press granted, Release] initial_app) = [0]
   \<and> track_stops (streams (run [Press granted, Press granted, Release] initial_app) ! 0) = 0"
  by (simp add: run_def startRecording_grants [OF grants_granted] initial_app_def
      active_recorders_def ondataavailable_def blob_size_def stopRecording_def stop_tracks_def
      upt_rec nth_append)

lemma startRecording_recorder_unsupported:
  "startRecording recorder_unsupported initial_app =
     initial_app\<lparr>error := Some ''Failed to access microphone. Please check permissions.'',
       streamRef := Some 0, streams := [\<lparr>track_stops = 0\<rparr>],
       contexts := [\<lparr>gain_value = Some 1, close_calls = 0\<rparr>],
       console := [(''Recording error:'', NotSupportedError)]\<rparr>"
  by (simp add: startRecording_def build_graph_def start_recorder_def catch_recording_def Let_def
      recorder_unsupported_def granted_def initial_app_def constraints_of_def float_values)

lemma list_all_update: "list_all P xs \<Longrightarrow> P x \<Longrightarrow> list_all P (xs[i := x])"
  by (auto simp: list_all_iff dest: set_update_subset_insert [THEN subsetD])

lemma unreferenced_startRecording:
  assumes "c < length (contexts st)" and "list_all (\<lambda>r. graph r \<noteq> c) (recorders st)"
  shows "c < length (contexts (startRecording env st)) \<and>
         list_all (\<lambda>r. graph r \<noteq> c) (recorders (startRecording env st)) \<and>
         close_calls (contexts (startRecording env st) ! c) = close_calls (contexts st ! c)"
  using assms
  by (auto simp: startRecording_def build_graph_def start_recorder_def catch_recording_def Let_def
      nth_append list_all_update split: option.splits)

lemma unreferenced_stopRecording:
  assumes "list_all (\<lambda>r. graph r \<noteq> c) (recorders st)"
  shows "list_all (\<lambda>r. graph r \<noteq> c) (recorders (stopRecording st))"
proof -
  have "\<And>r. r < length (recorders st) \<Longrightarrow> graph (recorders st ! r) \<noteq> c"
    using assms by (simp add: list_all_length)
  with assms show ?thesis
    by (simp add: stopRecording_def stop_tracks_def Let_def list_all_update split: option.splits)
qed

lemma unreferenced_onstop:
  assumes "c < length (contexts st)" and "list_all (\<lambda>r. graph r \<noteq> c) (recorders st)"
  shows "c < length (contexts (onstop k st)) \<and>
         recorders (onstop k st) = recorders st \<and>
         close_calls (contexts (onstop k st) ! c) = close_calls (contexts st ! c)"
proof (cases "k < length (recorders st)")
  case True
  with assms(2) have "graph (recorders st ! k) \<noteq> c"
    by (simp add: list_all_length)
  with assms(1) True show ?thesis
    by (simp add: onstop_def Let_def handleAudioProcess_def close_context_def)
next
  case False
  with assms(1) show ?thesis
    by (simp add: onstop_def)
qed

lemma recorders_handleSpeak: "recorders (handleSpeak g st) = recorders st"
  by (simp add: handleSpeak_def catch_speak_def Let_def split: sum.splits)

lemma unreferenced_step:
  assumes "c < length (contexts st)" and "list_all (\<lambda>r. graph r \<noteq> c) (recorders st)"
  shows "c < length (contexts (step e st)) \<and>
         list_all (\<lambda>r. graph r \<noteq> c) (recorders (step e st)) \<and>
         close_calls (contexts (step e st) ! c) = close_calls (contexts st ! c)"
proof (cases e)
  case (Press env)
  then show ?thesis
    using assms unreferenced_startRecording [OF assms, of env] by simp
next
  case Release
  then show ?thesis
    using assms unreferenced_stopRecording [OF assms(2)] by (simp add: contexts_stopRecording)
next
  case Leave
  then show ?thesis
    using assms unreferenced_stopRecording [OF assms(2)] by (simp add: contexts_stopRecording)
next
  case (Stopped k)
  then show ?thesis
    using assms unreferenced_onstop [OF assms, of k] by simp
qed (simp_all add: assms contexts_handleSpeak recorders_handleSpeak onSensitivityChange_def
    ondataavailable_def)

lemma unreferenced_run:
  "c < length (contexts st) \<Longrightarrow> list_all (\<lambda>r. graph r \<noteq> c) (recorders st) \<Longrightarrow>
   close_calls (contexts (run events st) ! c) = close_calls (contexts st ! c)"
proof (induction events arbitrary: st)
  case Nil
  then show ?case by (simp add: run_Nil)
next
  case (Cons e events)
  from unreferenced_step [OF Cons.prems, of e] Cons.IH [of "step e st"] show ?case
    by (simp add: run_Cons)
qed

text \<open>
  Claim C9 fails on the code: the \<open>catch\<close> of \<open>startRecording\<close> releases nothing.
  When the \<open>MediaRecorder\<close> constructor throws after the stream was acquired and
  the graph was built, the call returns with the tracks of the stream live and
  the context open, and no later event closes that context: only the \<open>onstop\<close>
  handler of a recorder closes a context, and no recorder was made for this one.
\<close>

theorem setup_failure_leaks:
  "streams (startRecording recorder_unsupported initial_app) = [\<lparr>track_stops = 0\<rparr>]
   \<and> contexts (startRecording recorder_unsupported initial_app) =
       [\<lparr>gain_value = Some 1, close_calls = 0\<rparr>]
   \<and> recorders (startRecording recorder_unsupported initial_app) = []
   \<and> isRecording (startRecording recorder_unsupported initial_app) = False
   \<and> console (startRecording recorder_unsupported initial_app) =
       [(''Recording error:'', NotSupportedError)]
   \<and> close_calls (contexts (run events (startRecording recorder_unsupported initial_app)) ! 0) = 0"
proof -
  let ?st = "startRecording recorder_unsupported initial_app"
  have i: "recorders initial_app = []" "isRecording initial_app = False"
    by (simp_all add: initial_app_def)
  have "close_calls (contexts (run events ?st) ! 0) = close_calls (contexts ?st ! 0)"
    by (rule unreferenced_run) (simp_all add: startRecording_recorder_unsupported i)
  then show ?thesis
    by (simp add: startRecording_recorder_unsupported i)
qed

end
